theory Spec2Isabelle
  imports Complex_Main "HOL-Library.Multiset"
begin

section \<open>Breaks of a date axis\<close>

text \<open>
  The development follows \<^verbatim>\<open>src/.internal/charts/axes/DateAxisBreak.ts\<close>: the class
  \<^verbatim>\<open>DateAxisBreak\<close> with its two fields \<^verbatim>\<open>gridInterval\<close> and \<^verbatim>\<open>gridDate\<close>, its
  constructor and the accessors \<^verbatim>\<open>startDate\<close> and \<^verbatim>\<open>endDate\<close>. The classes
  it builds on (the property store of the base object, \<^verbatim>\<open>ValueAxisBreak\<close>, the axis) are
  not among the sources; what the accessors need of them is modelled from the
  specification and marked so.

  A JavaScript \<^verbatim>\<open>number\<close> is idealised as a real number: rounding, infinities and NaN
  are not modelled.
\<close>

type_synonym number = real

subsection \<open>Dates\<close>

text \<open>
  The parameter \<^verbatim>\<open>value: Date\<close> of a setter is a JavaScript object. The setter keeps the
  object itself in the property store (lines 144 and 166) and beside it a number copied
  from it at that moment (lines 145 and 167); the getter returns the object (lines 157
  and 179). The caller still holds the object and can change the instant it denotes.
  So a \<open>Date\<close> is an object, known by its identity; what each object denotes at the moment
  is kept in a store of its own, and \<^verbatim>\<open>setTime\<close>, the standard method by which the holder
  of a \<^verbatim>\<open>Date\<close> changes it, updates that store.

  A \<open>DateValue\<close> is the instant a \<^verbatim>\<open>Date\<close> denotes, its time value, a whole number of
  milliseconds since the epoch. The invalid date (time value NaN) is not modelled.
  \<^verbatim>\<open>getTime\<close> is the method the setters call.
\<close>

datatype DateValue = DateValue (ms: int)

datatype Date = Date (ident: nat)

type_synonym DateStore = "Date \<Rightarrow> DateValue"

definition getTime :: "DateStore \<Rightarrow> Date \<Rightarrow> number" where
  "getTime h d = of_int (ms (h d))"

definition setTime :: "Date \<Rightarrow> int \<Rightarrow> DateStore \<Rightarrow> DateStore" where
  "setTime d t h = h(d := DateValue t)"

text \<open>
  Modelled from the spec: the date/time conversion collaborator of section 6, which
  the source does not contain. It converts between what a date denotes and a number:
  \<^verbatim>\<open>toNumeric\<close> is the time value of the date; \<^verbatim>\<open>fromNumeric\<close> gives the date of a
  number, dropping a fractional part towards zero as the \<^verbatim>\<open>Date\<close> constructor does.
  Two dates are equal for it when they denote the same instant.
\<close>

definition toNumeric :: "DateValue \<Rightarrow> number" where
  "toNumeric d = of_int (ms d)"

definition fromNumeric :: "number \<Rightarrow> DateValue" where
  "fromNumeric v = DateValue (if v < 0 then \<lceil>v\<rceil> else \<lfloor>v\<rfloor>)"

subsection \<open>Errors\<close>

text \<open>
  Modelled from the spec: the taxonomy of section 7. The source file raises none of
  them; they are results of the operations modelled from the spec below.
\<close>

datatype error = InvalidRangeError | OverlapError | NotFoundError

subsection \<open>The axis as the receiver of invalidation requests\<close>

text \<open>
  Modelled from the spec: the axis (\<^verbatim>\<open>DateAxis\<close>) is not among the sources. Sections 4.4,
  5 and 6 describe \<^verbatim>\<open>invalidate()\<close> and \<^verbatim>\<open>invalidateSeries()\<close> as two independent
  idempotent mark-dirty operations: the break pushes a dirty flag, the axis pulls and
  clears it during its own validation pass, once per render cycle. The field
  \<open>requests\<close> records the calls received since the last validation pass, in order,
  so that the calls a setter makes can be observed.
\<close>

datatype AxisCall = Invalidate | InvalidateSeries

record Axis =
  layoutDirty :: bool
  seriesDirty :: bool
  requests :: "AxisCall list"

definition invalidate :: "Axis \<Rightarrow> Axis" where
  "invalidate a = a\<lparr>layoutDirty := True, requests := requests a @ [Invalidate]\<rparr>"

definition invalidateSeries :: "Axis \<Rightarrow> Axis" where
  "invalidateSeries a = a\<lparr>seriesDirty := True, requests := requests a @ [InvalidateSeries]\<rparr>"

text \<open>
  Modelled from the spec: the validation pass of one render cycle (sections 4.4 and 5),
  which consumes the dirty flags. It returns how many layout re-validations and how
  many series re-validations it performs (one for a raised flag, none otherwise) and
  the axis with both flags cleared.
\<close>

definition validate :: "Axis \<Rightarrow> (nat \<times> nat) \<times> Axis" where
  "validate a =
     ((if layoutDirty a then 1 else 0, if seriesDirty a then 1 else 0),
      a\<lparr>layoutDirty := False, seriesDirty := False, requests := []\<rparr>)"

subsection \<open>The numeric break and the set of breaks\<close>

text \<open>
  Modelled from the spec: \<^verbatim>\<open>NumericBreak\<close> (section 4.1) and \<^verbatim>\<open>BreakSet\<close> (section 4.3)
  have no source file here. A break has the fields of section 3; an operation that can
  fail returns the error, if any, together with the break or set as it is afterwards.
\<close>

record NumericBreak =
  startValue :: number
  endValue :: number
  breakSize :: number
  axis :: "Axis option"

text \<open>
  Modelled from the spec: when the boundaries of a break change, the owning axis and
  the renderers that depend on it are marked dirty (section 2), if the axis reference
  is set.
\<close>

definition requestInvalidation :: "Axis option \<Rightarrow> Axis option" where
  "requestInvalidation ax = map_option (\<lambda>a. invalidateSeries (invalidate a)) ax"

text \<open>
  Modelled from the spec: \<^verbatim>\<open>setRange(start, end)\<close> fails with \<open>InvalidRangeError\<close> if
  \<open>start \<ge> end\<close>; on success it updates the bounds and requests invalidation.
\<close>

definition setRange :: "number \<Rightarrow> number \<Rightarrow> NumericBreak \<Rightarrow> error option \<times> NumericBreak" where
  "setRange start end b =
     (if start \<ge> end then (Some InvalidRangeError, b)
      else (None, b\<lparr>startValue := start, endValue := end,
                     axis := requestInvalidation (axis b)\<rparr>))"

text \<open>
  Modelled from the spec: the \<^verbatim>\<open>breakSize\<close> setter fails with \<open>InvalidRangeError\<close> if the
  value lies outside \<open>[0, 1]\<close>.
\<close>

definition set_breakSize :: "number \<Rightarrow> NumericBreak \<Rightarrow> error option \<times> NumericBreak" where
  "set_breakSize v b =
     (if v < 0 \<or> 1 < v then (Some InvalidRangeError, b)
      else (None, b\<lparr>breakSize := v\<rparr>))"

text \<open>
  Modelled from the spec: \<^verbatim>\<open>mapValue(raw)\<close>. Values below \<open>startValue\<close> pass through
  unchanged, values at or above \<open>endValue\<close> are shifted left by
  \<open>(endValue - startValue) * (1 - breakSize)\<close>, values inside the break are compressed
  linearly between the two boundary offsets.
\<close>

definition mapValue :: "NumericBreak \<Rightarrow> number \<Rightarrow> number" where
  "mapValue b raw =
     (if raw < startValue b then raw
      else if raw \<ge> endValue b
        then raw - (endValue b - startValue b) * (1 - breakSize b)
      else startValue b + (raw - startValue b) * breakSize b)"

text \<open>
  Modelled from the spec: two breaks overlap when the half-open intervals
  \<open>[startValue, endValue)\<close> have a point in common, that is when the larger start lies
  below the smaller end.
\<close>

definition overlaps :: "NumericBreak \<Rightarrow> NumericBreak \<Rightarrow> bool" where
  "overlaps x y = (max (startValue x) (startValue y) < min (endValue x) (endValue y))"

text \<open>
  Modelled from the spec: a \<^verbatim>\<open>BreakSet\<close> is a sequence of breaks in ascending order of
  \<open>startValue\<close>. \<^verbatim>\<open>add\<close> fails with \<open>OverlapError\<close> if the new break overlaps a break
  of the set, and otherwise inserts it at its place in that order.
\<close>

type_synonym BreakSet = "NumericBreak list"

fun insertSorted :: "NumericBreak \<Rightarrow> BreakSet \<Rightarrow> BreakSet" where
  "insertSorted x [] = [x]"
| "insertSorted x (y # ys) =
     (if startValue x \<le> startValue y then x # y # ys else y # insertSorted x ys)"

definition BreakSet_add :: "NumericBreak \<Rightarrow> BreakSet \<Rightarrow> error option \<times> BreakSet" where
  "BreakSet_add x bs =
     (if list_ex (overlaps x) bs then (Some OverlapError, bs)
      else (None, insertSorted x bs))"

subsection \<open>The date break\<close>

text \<open>
  Modelled from the spec: the part of the object state that \<^verbatim>\<open>DateAxisBreak\<close> inherits
  from \<^verbatim>\<open>ValueAxisBreak\<close> and its base classes, none of which is among the sources.
  \<open>className\<close> is the field the constructor assigns; \<open>properties\<close> is the attribute
  storage of the base object, restricted to the date-valued properties this class
  stores, each holding the \<^verbatim>\<open>Date\<close> object it was given; \<open>startValue\<close> and \<open>endValue\<close> are the numeric bounds of section 3, and an
  assignment to them stores the number; \<open>axis\<close> is the back-reference to the owning
  axis, unset while the break is not attached. The state of the axis reached through
  the reference is carried in the field, so that calls on the axis show in the result.
  A JavaScript field that has not been assigned is \<open>None\<close>.
\<close>

record ValueAxisBreak =
  className :: string
  properties :: "string \<rightharpoonup> Date"
  startValue :: "number option"
  endValue :: "number option"
  axis :: "Axis option"

text \<open>
  The class \<^verbatim>\<open>DateAxisBreak extends ValueAxisBreak\<close> declares the two fields
  \<open>gridInterval\<close> and \<open>gridDate\<close>. The type \<^verbatim>\<open>ITimeInterval\<close> of the first is declared
  elsewhere and is a type parameter here.
\<close>

record 'i DateAxisBreak = ValueAxisBreak +
  gridInterval :: "'i option"
  gridDate :: "Date option"

text \<open>
  Modelled from the spec: \<^verbatim>\<open>setPropertyValue\<close> and \<^verbatim>\<open>getPropertyValue\<close> of the base
  object (attribute storage, out of scope in section 1). Storing a value reports whether
  the stored value changed, and writes nothing when it did not. The store is handed the
  \<^verbatim>\<open>Date\<close> object and knows nothing of dates: a stored object is unchanged only when the
  very same object is given again, and another object counts as a change also when it
  denotes the same instant.
\<close>

definition setPropertyValue ::
  "string \<Rightarrow> Date \<Rightarrow> 'i DateAxisBreak \<Rightarrow> bool \<times> 'i DateAxisBreak" where
  "setPropertyValue name v this =
     (if properties this name = Some v then (False, this)
      else (True, this\<lparr>properties := (properties this)(name \<mapsto> v)\<rparr>))"

definition getPropertyValue :: "string \<Rightarrow> 'i DateAxisBreak \<Rightarrow> Date option" where
  "getPropertyValue name this = properties this name"

text \<open>
  Modelled from the spec: the constructor calls \<^verbatim>\<open>super()\<close> and \<^verbatim>\<open>applyTheme()\<close>, which
  are not among the sources; by section 3 a break is created standalone, with no
  boundaries fixed and no axis. The constructor itself sets the class name.
\<close>

definition DateAxisBreak_new :: "'i DateAxisBreak" where
  "DateAxisBreak_new =
     \<lparr>className = ''DateAxisBreak'', properties = Map.empty,
      startValue = None, endValue = None, axis = None,
      gridInterval = None, gridDate = None\<rparr>"

text \<open>
  The accessors of the class (lines 143 to 180 of the source), statement by statement.
  A setter reads the store of dates (for \<^verbatim>\<open>value.getTime()\<close>) and does not write it.
  It first stores the date object through \<^verbatim>\<open>setPropertyValue\<close>; only when that reports a
  change does it assign the time value to the numeric bound and, if an axis is attached,
  call \<^verbatim>\<open>invalidate()\<close> and \<^verbatim>\<open>invalidateSeries()\<close> on it. Neither setter contains a
  \<^verbatim>\<open>throw\<close> or a comparison with the opposite bound, so each is a total function from
  the state before to the state after.
\<close>

definition set_startDate ::
  "DateStore \<Rightarrow> Date \<Rightarrow> 'i DateAxisBreak \<Rightarrow> 'i DateAxisBreak" where
  "set_startDate h v this =
     (case setPropertyValue ''startDate'' v this of
        (True, this1) \<Rightarrow>
          (let this2 = this1\<lparr>startValue := Some (getTime h v)\<rparr> in
           case axis this2 of
             Some a \<Rightarrow> this2\<lparr>axis := Some (invalidateSeries (invalidate a))\<rparr>
           | None \<Rightarrow> this2)
      | (False, this1) \<Rightarrow> this1)"

definition get_startDate :: "'i DateAxisBreak \<Rightarrow> Date option" where
  "get_startDate this = getPropertyValue ''startDate'' this"

definition set_endDate ::
  "DateStore \<Rightarrow> Date \<Rightarrow> 'i DateAxisBreak \<Rightarrow> 'i DateAxisBreak" where
  "set_endDate h v this =
     (case setPropertyValue ''endDate'' v this of
        (True, this1) \<Rightarrow>
          (let this2 = this1\<lparr>endValue := Some (getTime h v)\<rparr> in
           case axis this2 of
             Some a \<Rightarrow> this2\<lparr>axis := Some (invalidateSeries (invalidate a))\<rparr>
           | None \<Rightarrow> this2)
      | (False, this1) \<Rightarrow> this1)"

definition get_endDate :: "'i DateAxisBreak \<Rightarrow> Date option" where
  "get_endDate this = getPropertyValue ''endDate'' this"

text \<open>
  A sequence of mutations through the two setters, applied from left to right, during
  which no \<^verbatim>\<open>Date\<close> object is changed: the store of dates is the same for every call.
\<close>

datatype Mutation = SetStartDate Date | SetEndDate Date

fun mutate :: "DateStore \<Rightarrow> Mutation \<Rightarrow> 'i DateAxisBreak \<Rightarrow> 'i DateAxisBreak" where
  "mutate h (SetStartDate d) this = set_startDate h d this"
| "mutate h (SetEndDate d) this = set_endDate h d this"

fun mutations ::
  "DateStore \<Rightarrow> Mutation list \<Rightarrow> 'i DateAxisBreak \<Rightarrow> 'i DateAxisBreak" where
  "mutations h [] this = this"
| "mutations h (m # rest) this = mutations h rest (mutate h m this)"

text \<open>
  The calendar view and the numeric view of a bound agree when the date read from the
  property has, as the store of dates stands, the stored number as its time value, or
  when neither is set.
\<close>

definition viewsAgree :: "DateStore \<Rightarrow> 'i DateAxisBreak \<Rightarrow> bool" where
  "viewsAgree h this =
     (map_option (getTime h) (get_startDate this) = startValue this \<and>
      map_option (getTime h) (get_endDate this) = endValue this)"

subsection \<open>Both flags raised\<close>

text \<open>An attached axis on which both dirty flags are raised.\<close>

definition bothDirty :: "Axis option \<Rightarrow> bool" where
  "bothDirty ax = (case ax of Some a \<Rightarrow> layoutDirty a \<and> seriesDirty a | None \<Rightarrow> False)"

subsection \<open>States used for evaluation\<close>

text \<open>
  A store of dates in which the object \<open>Date n\<close> denotes the instant \<open>n\<close>; the same store
  after the holder of \<open>Date 50\<close> has set it to 70; and the same store after \<open>Date 7\<close> has
  been set to 50, so that two objects denote the instant 50.
  An axis at the start of a render cycle; a date break whose bounds were set through the
  two setters, first \<^verbatim>\<open>startDate\<close> then \<^verbatim>\<open>endDate\<close>; the same break attached to the
  axis; and the same break after 999 has been written to its numeric start directly.
  Then four numeric breaks: two that lie apart, one that cuts into both, and one that
  fits exactly between them.
\<close>

definition sampleDates :: DateStore where
  "sampleDates d = DateValue (int (ident d))"

definition agedDates :: DateStore where
  "agedDates = setTime (Date 50) 70 sampleDates"

definition twinDates :: DateStore where
  "twinDates = setTime (Date 7) 50 sampleDates"

definition cleanAxis :: Axis where
  "cleanAxis = \<lparr>layoutDirty = False, seriesDirty = False, requests = []\<rparr>"

definition boundedBreak :: "unit DateAxisBreak" where
  "boundedBreak =
     mutations sampleDates [SetStartDate (Date 50), SetEndDate (Date 100)]
       DateAxisBreak_new"

definition staleBreak :: "unit DateAxisBreak" where
  "staleBreak = boundedBreak\<lparr>startValue := Some 999\<rparr>"

definition attachedBreak :: "unit DateAxisBreak" where
  "attachedBreak = boundedBreak\<lparr>axis := Some cleanAxis\<rparr>"

definition weekendBreak :: NumericBreak where
  "weekendBreak =
     \<lparr>NumericBreak.startValue = 3, NumericBreak.endValue = 5, breakSize = 1/2,
      NumericBreak.axis = Some cleanAxis\<rparr>"

definition holidayBreak :: NumericBreak where
  "holidayBreak =
     \<lparr>NumericBreak.startValue = 10, NumericBreak.endValue = 12, breakSize = 0,
      NumericBreak.axis = None\<rparr>"

definition clashingBreak :: NumericBreak where
  "clashingBreak =
     \<lparr>NumericBreak.startValue = 4, NumericBreak.endValue = 11, breakSize = 1,
      NumericBreak.axis = None\<rparr>"

definition middleBreak :: NumericBreak where
  "middleBreak =
     \<lparr>NumericBreak.startValue = 5, NumericBreak.endValue = 10, breakSize = 1,
      NumericBreak.axis = None\<rparr>"

section \<open>Properties\<close>

subsection \<open>Auxiliary facts about the setters\<close>

lemmas setter_defs =
  set_startDate_def set_endDate_def get_startDate_def get_endDate_def
  getPropertyValue_def setPropertyValue_def

lemmas store_defs =
  getTime_def setTime_def sampleDates_def agedDates_def twinDates_def

lemma boundedBreak_eq:
  "boundedBreak =
     \<lparr>className = ''DateAxisBreak'',
      properties = [''startDate'' \<mapsto> Date 50, ''endDate'' \<mapsto> Date 100],
      startValue = Some 50, endValue = Some 100, axis = None,
      gridInterval = None, gridDate = None\<rparr>"
  by (simp add: boundedBreak_def DateAxisBreak_new_def setter_defs store_defs)

lemma set_startDate_unchanged:
  "get_startDate this = Some v \<Longrightarrow> set_startDate h v this = this"
  by (simp add: setter_defs)

lemma set_endDate_unchanged:
  "get_endDate this = Some v \<Longrightarrow> set_endDate h v this = this"
  by (simp add: setter_defs)

lemma set_startDate_stores: "get_startDate (set_startDate h d this) = Some d"
  by (simp add: setter_defs Let_def split: option.splits)

lemma set_endDate_stores: "get_endDate (set_endDate h d this) = Some d"
  by (simp add: setter_defs Let_def split: option.splits)

lemma set_startDate_frame:
  "gridInterval (set_startDate h v this) = gridInterval this \<and>
   gridDate (set_startDate h v this) = gridDate this \<and>
   get_endDate (set_startDate h v this) = get_endDate this \<and>
   endValue (set_startDate h v this) = endValue this"
  by (simp add: setter_defs Let_def split: option.splits)

lemma set_endDate_frame:
  "gridInterval (set_endDate h v this) = gridInterval this \<and>
   gridDate (set_endDate h v this) = gridDate this \<and>
   get_startDate (set_endDate h v this) = get_startDate this \<and>
   startValue (set_endDate h v this) = startValue this"
  by (simp add: setter_defs Let_def split: option.splits)

lemma mutations_grid:
  "gridInterval (mutations h muts this) = gridInterval this \<and>
   gridDate (mutations h muts this) = gridDate this"
proof (induction muts arbitrary: this)
  case Nil
  show ?case by simp
next
  case (Cons m rest)
  have "gridInterval (mutate h m this) = gridInterval this \<and>
        gridDate (mutate h m this) = gridDate this"
    by (cases m) (simp_all add: set_startDate_frame set_endDate_frame)
  then show ?case using Cons.IH [of "mutate h m this"] by simp
qed

lemma set_startDate_changed:
  assumes "get_startDate this \<noteq> Some v"
  shows "startValue (set_startDate h v this) = Some (getTime h v)"
    and "axis this = Some a \<Longrightarrow>
         axis (set_startDate h v this) = Some (invalidateSeries (invalidate a))"
  using assms by (simp_all add: setter_defs Let_def split: option.splits)

lemma set_endDate_changed:
  assumes "get_endDate this \<noteq> Some v"
  shows "endValue (set_endDate h v this) = Some (getTime h v)"
    and "axis this = Some a \<Longrightarrow>
         axis (set_endDate h v this) = Some (invalidateSeries (invalidate a))"
  using assms by (simp_all add: setter_defs Let_def split: option.splits)

lemma set_startDate_calls:
  assumes "get_startDate this \<noteq> Some v" and "axis this = Some a"
  shows "\<exists>a' calls. axis (set_startDate h v this) = Some a' \<and>
           requests a' = requests a @ calls \<and>
           Invalidate \<in> set calls \<and> InvalidateSeries \<in> set calls"
proof -
  have "axis (set_startDate h v this) = Some (invalidateSeries (invalidate a))"
    using assms by (simp add: setter_defs)
  moreover have "requests (invalidateSeries (invalidate a))
      = requests a @ [Invalidate, InvalidateSeries]"
    by (simp add: invalidate_def invalidateSeries_def)
  moreover have "Invalidate \<in> set [Invalidate, InvalidateSeries]"
    "InvalidateSeries \<in> set [Invalidate, InvalidateSeries]"
    by simp_all
  ultimately show ?thesis by blast
qed

lemma set_endDate_calls:
  assumes "get_endDate this \<noteq> Some v" and "axis this = Some a"
  shows "\<exists>a' calls. axis (set_endDate h v this) = Some a' \<and>
           requests a' = requests a @ calls \<and>
           Invalidate \<in> set calls \<and> InvalidateSeries \<in> set calls"
proof -
  have "axis (set_endDate h v this) = Some (invalidateSeries (invalidate a))"
    using assms by (simp add: setter_defs)
  moreover have "requests (invalidateSeries (invalidate a))
      = requests a @ [Invalidate, InvalidateSeries]"
    by (simp add: invalidate_def invalidateSeries_def)
  moreover have "Invalidate \<in> set [Invalidate, InvalidateSeries]"
    "InvalidateSeries \<in> set [Invalidate, InvalidateSeries]"
    by simp_all
  ultimately show ?thesis by blast
qed

lemma set_startDate_raises:
  "get_startDate this \<noteq> Some v \<Longrightarrow> axis this = Some a \<Longrightarrow>
   bothDirty (axis (set_startDate h v this))"
  by (simp add: bothDirty_def setter_defs invalidate_def invalidateSeries_def)

lemma set_endDate_raises:
  "get_endDate this \<noteq> Some v \<Longrightarrow> axis this = Some a \<Longrightarrow>
   bothDirty (axis (set_endDate h v this))"
  by (simp add: bothDirty_def setter_defs invalidate_def invalidateSeries_def)

lemma invalidated_axis:
  "layoutDirty (invalidateSeries (invalidate a)) \<and>
   seriesDirty (invalidateSeries (invalidate a)) \<and>
   requests (invalidateSeries (invalidate a)) = requests a @ [Invalidate, InvalidateSeries]"
  by (simp add: invalidate_def invalidateSeries_def)

subsection \<open>Agreement of the two views\<close>

lemma viewsAgree_new: "viewsAgree h DateAxisBreak_new"
  by (simp add: viewsAgree_def DateAxisBreak_new_def setter_defs)

lemma viewsAgree_set_startDate:
  "viewsAgree h this \<Longrightarrow> viewsAgree h (set_startDate h v this)"
  by (auto simp add: viewsAgree_def setter_defs Let_def split: option.splits)

lemma viewsAgree_set_endDate:
  "viewsAgree h this \<Longrightarrow> viewsAgree h (set_endDate h v this)"
  by (auto simp add: viewsAgree_def setter_defs Let_def split: option.splits)

lemma viewsAgree_mutations:
  "viewsAgree h this \<Longrightarrow> viewsAgree h (mutations h muts this)"
proof (induction muts arbitrary: this)
  case Nil
  then show ?case by simp
next
  case (Cons m rest)
  have "viewsAgree h (mutate h m this)"
    using Cons.prems
    by (cases m) (simp_all add: viewsAgree_set_startDate viewsAgree_set_endDate)
  then show ?case using Cons.IH by simp
qed

lemma set_startDate_startValue:
  assumes "get_startDate this \<noteq> Some d \<or> viewsAgree h this"
  shows "startValue (set_startDate h d this) = Some (getTime h d)"
proof (cases "get_startDate this = Some d")
  case True
  with assms have "viewsAgree h this" by simp
  with True have "startValue this = Some (getTime h d)"
    by (simp add: viewsAgree_def)
  with True show ?thesis by (simp add: set_startDate_unchanged)
next
  case False
  then show ?thesis by (rule set_startDate_changed)
qed

lemma set_endDate_endValue:
  assumes "get_endDate this \<noteq> Some d \<or> viewsAgree h this"
  shows "endValue (set_endDate h d this) = Some (getTime h d)"
proof (cases "get_endDate this = Some d")
  case True
  with assms have "viewsAgree h this" by simp
  with True have "endValue this = Some (getTime h d)"
    by (simp add: viewsAgree_def)
  with True show ?thesis by (simp add: set_endDate_unchanged)
next
  case False
  then show ?thesis by (rule set_endDate_changed)
qed

lemma fromNumeric_toNumeric: "fromNumeric (toNumeric d) = d"
  by (cases d) (simp add: fromNumeric_def toNumeric_def)

lemma getTime_toNumeric: "getTime h d = toNumeric (h d)"
  by (simp add: getTime_def toNumeric_def)

subsection \<open>Raised flags stay raised\<close>

lemma bothDirty_set_startDate:
  "bothDirty (axis this) \<Longrightarrow> bothDirty (axis (set_startDate h v this))"
  by (auto simp add: bothDirty_def setter_defs Let_def invalidate_def invalidateSeries_def
      split: option.splits)

lemma bothDirty_set_endDate:
  "bothDirty (axis this) \<Longrightarrow> bothDirty (axis (set_endDate h v this))"
  by (auto simp add: bothDirty_def setter_defs Let_def invalidate_def invalidateSeries_def
      split: option.splits)

lemma bothDirty_mutations:
  "bothDirty (axis this) \<Longrightarrow> bothDirty (axis (mutations h muts this))"
proof (induction muts arbitrary: this)
  case Nil
  then show ?case by simp
next
  case (Cons m rest)
  have "bothDirty (axis (mutate h m this))"
    using Cons.prems
    by (cases m) (simp_all add: bothDirty_set_startDate bothDirty_set_endDate)
  then show ?case using Cons.IH by simp
qed

lemma bothDirty_validate:
  "bothDirty ax \<Longrightarrow> map_option (fst \<circ> validate) ax = Some (1, 1)"
  by (auto simp add: bothDirty_def validate_def split: option.splits)

subsection \<open>Auxiliary facts about the numeric break\<close>

lemma mapValue_mono:
  assumes "NumericBreak.startValue b \<le> NumericBreak.endValue b"
    and "0 \<le> breakSize b" and "x \<le> y"
  shows "mapValue b x \<le> mapValue b y"
proof -
  let ?s = "NumericBreak.startValue b" and ?e = "NumericBreak.endValue b"
    and ?k = "breakSize b"
  have in_lo: "?s \<le> ?s + (r - ?s) * ?k" if "?s \<le> r" for r
    using that assms(2) by simp
  have in_mono: "?s + (x - ?s) * ?k \<le> ?s + (y - ?s) * ?k"
    using assms(2,3) by (simp add: mult_right_mono)
  have above: "?s + (?e - ?s) * ?k \<le> r - (?e - ?s) * (1 - ?k)" if "?e \<le> r" for r
    using that by (simp add: algebra_simps)
  have in_hi: "?s + (r - ?s) * ?k \<le> ?s + (?e - ?s) * ?k" if "r \<le> ?e" for r
    using that assms(2) by (simp add: mult_right_mono)
  show ?thesis
  proof (cases "x < ?s")
    case True
    show ?thesis
    proof (cases "y < ?s")
      case True
      with \<open>x < ?s\<close> assms(3) show ?thesis by (simp add: mapValue_def)
    next
      case False
      then have "?s \<le> mapValue b y"
        using in_lo [of y] in_lo [of ?e] above [of y] assms(1)
        by (auto simp add: mapValue_def)
      with True show ?thesis by (simp add: mapValue_def)
    qed
  next
    case xs: False
    then have ys: "\<not> y < ?s" using assms(3) by simp
    show ?thesis
    proof (cases "?e \<le> x")
      case True
      then have "?e \<le> y" using assms(3) by simp
      with True xs ys assms(3) show ?thesis by (simp add: mapValue_def)
    next
      case xe: False
      show ?thesis
      proof (cases "?e \<le> y")
        case True
        have "?s + (x - ?s) * ?k \<le> ?s + (?e - ?s) * ?k"
          using in_hi [of x] xe by simp
        also have "\<dots> \<le> y - (?e - ?s) * (1 - ?k)"
          using above [of y] True by simp
        finally show ?thesis using xs ys xe True by (simp add: mapValue_def)
      next
        case False
        with xs ys xe in_mono show ?thesis by (simp add: mapValue_def)
      qed
    qed
  qed
qed

lemma mapValue_span:
  "s < e \<Longrightarrow> NumericBreak.startValue b = s \<Longrightarrow> NumericBreak.endValue b = e \<Longrightarrow>
   mapValue b e - mapValue b s = (e - s) * breakSize b"
  by (simp add: mapValue_def algebra_simps)

lemma mapValue_identity: "breakSize b = 1 \<Longrightarrow> mapValue b x = x"
  by (simp add: mapValue_def)

lemma setRange_ok:
  "start < end \<Longrightarrow>
   setRange start end b =
     (None, b\<lparr>NumericBreak.startValue := start, NumericBreak.endValue := end,
              NumericBreak.axis := requestInvalidation (NumericBreak.axis b)\<rparr>)"
  by (simp add: setRange_def)

lemma set_breakSize_range:
  "fst (set_breakSize v b) = None \<Longrightarrow>
   0 \<le> breakSize (snd (set_breakSize v b)) \<and> breakSize (snd (set_breakSize v b)) \<le> 1"
  by (auto simp add: set_breakSize_def split: if_splits)

subsection \<open>Auxiliary facts about the set of breaks\<close>

lemma overlaps_common_point:
  "overlaps x y \<longleftrightarrow>
   (\<exists>v. NumericBreak.startValue x \<le> v \<and> v < NumericBreak.endValue x \<and>
        NumericBreak.startValue y \<le> v \<and> v < NumericBreak.endValue y)"
proof
  let ?m = "max (NumericBreak.startValue x) (NumericBreak.startValue y)"
  assume "overlaps x y"
  then have "NumericBreak.startValue x \<le> ?m \<and> ?m < NumericBreak.endValue x \<and>
     NumericBreak.startValue y \<le> ?m \<and> ?m < NumericBreak.endValue y"
    by (simp add: overlaps_def)
  then show "\<exists>v. NumericBreak.startValue x \<le> v \<and> v < NumericBreak.endValue x \<and>
        NumericBreak.startValue y \<le> v \<and> v < NumericBreak.endValue y"
    by blast
next
  assume "\<exists>v. NumericBreak.startValue x \<le> v \<and> v < NumericBreak.endValue x \<and>
        NumericBreak.startValue y \<le> v \<and> v < NumericBreak.endValue y"
  then show "overlaps x y"
    by (auto simp add: overlaps_def)
qed

lemma mset_insertSorted: "mset (insertSorted x bs) = add_mset x (mset bs)"
  by (induction bs) simp_all

lemma set_insertSorted: "set (insertSorted x bs) = insert x (set bs)"
  by (induction bs) auto

lemma sorted_insertSorted:
  "sorted (map NumericBreak.startValue bs) \<Longrightarrow>
   sorted (map NumericBreak.startValue (insertSorted x bs))"
  by (induction bs) (auto simp add: set_insertSorted)


section \<open>The claims\<close>

subsection \<open>A start at or after the end\<close>

text \<open>
  Claim C1, as stated, asks that setting \<^verbatim>\<open>startDate\<close> to a date at or after the current
  \<open>endValue\<close> fails with \<open>InvalidRangeError\<close> and leaves the stored bounds as they were
  (and the same for \<^verbatim>\<open>endDate\<close> against \<open>startValue\<close>). The setters compare nothing
  with the opposite bound. On a break with the bounds 50 and 100, set through the
  setters, the start date 200 is stored and \<open>startValue\<close> becomes 200; likewise the
  end date 10 is stored and \<open>endValue\<close> becomes 10.
\<close>

theorem C1_bounds_not_kept_counterexample:
  "endValue boundedBreak = Some 100 \<and> startValue boundedBreak = Some 50 \<and>
   get_startDate boundedBreak = Some (Date 50) \<and>
   get_endDate boundedBreak = Some (Date 100) \<and>
   getTime sampleDates (Date 200) \<ge> 100 \<and>
   set_startDate sampleDates (Date 200) boundedBreak \<noteq> boundedBreak \<and>
   startValue (set_startDate sampleDates (Date 200) boundedBreak) = Some 200 \<and>
   get_startDate (set_startDate sampleDates (Date 200) boundedBreak) = Some (Date 200) \<and>
   getTime sampleDates (Date 10) \<le> 50 \<and>
   set_endDate sampleDates (Date 10) boundedBreak \<noteq> boundedBreak \<and>
   endValue (set_endDate sampleDates (Date 10) boundedBreak) = Some 10 \<and>
   get_endDate (set_endDate sampleDates (Date 10) boundedBreak) = Some (Date 10)"
proof -
  have s: "startValue (set_startDate sampleDates (Date 200) boundedBreak) = Some 200"
    by (simp add: boundedBreak_eq setter_defs store_defs)
  have e: "endValue (set_endDate sampleDates (Date 10) boundedBreak) = Some 10"
    by (simp add: boundedBreak_eq setter_defs store_defs)
  have s0: "startValue boundedBreak = Some 50"
    and e0: "endValue boundedBreak = Some 100"
    by (simp_all add: boundedBreak_eq)
  have "set_startDate sampleDates (Date 200) boundedBreak \<noteq> boundedBreak"
    using s s0 by auto
  moreover have "set_endDate sampleDates (Date 10) boundedBreak \<noteq> boundedBreak"
    using e e0 by auto
  moreover have
    "get_startDate (set_startDate sampleDates (Date 200) boundedBreak) = Some (Date 200)"
    by (rule set_startDate_stores)
  moreover have
    "get_endDate (set_endDate sampleDates (Date 10) boundedBreak) = Some (Date 10)"
    by (rule set_endDate_stores)
  moreover have "get_startDate boundedBreak = Some (Date 50)"
    "get_endDate boundedBreak = Some (Date 100)"
    by (simp_all add: boundedBreak_eq setter_defs)
  moreover have "getTime sampleDates (Date 200) \<ge> 100" "getTime sampleDates (Date 10) \<le> 50"
    by (simp_all add: store_defs)
  ultimately show ?thesis using s e s0 e0 by blast
qed

text \<open>
  Claim C1, amended. Setting \<^verbatim>\<open>startDate\<close> to a date other than the stored one and
  whose time value is at or above the current \<open>endValue\<close> is accepted like any other
  date: the date is stored, \<open>startValue\<close> becomes its time value, and the end date and
  \<open>endValue\<close> stay as they were, so the bounds are not exchanged. The same holds for
  \<^verbatim>\<open>endDate\<close> with a time value at or below the current \<open>startValue\<close>.
\<close>

theorem C1_out_of_order_date_is_stored:
  "(endValue this = Some e \<and> e \<le> getTime h v \<and> get_startDate this \<noteq> Some v \<longrightarrow>
      get_startDate (set_startDate h v this) = Some v \<and>
      startValue (set_startDate h v this) = Some (getTime h v) \<and>
      endValue (set_startDate h v this) = Some e \<and>
      get_endDate (set_startDate h v this) = get_endDate this) \<and>
   (startValue this = Some s \<and> getTime h v \<le> s \<and> get_endDate this \<noteq> Some v \<longrightarrow>
      get_endDate (set_endDate h v this) = Some v \<and>
      endValue (set_endDate h v this) = Some (getTime h v) \<and>
      startValue (set_endDate h v this) = Some s \<and>
      get_startDate (set_endDate h v this) = get_startDate this)"
  by (simp add: setter_defs Let_def split: option.splits)

theorem C1_out_of_order_date_is_stored_witness:
  "endValue boundedBreak = Some 100 \<and> 100 \<le> getTime sampleDates (Date 200) \<and>
   get_startDate boundedBreak \<noteq> Some (Date 200) \<and>
   startValue (set_startDate sampleDates (Date 200) boundedBreak) = Some 200 \<and>
   endValue (set_startDate sampleDates (Date 200) boundedBreak) = Some 100 \<and>
   startValue boundedBreak = Some 50 \<and> getTime sampleDates (Date 50) \<le> 50 \<and>
   get_endDate boundedBreak \<noteq> Some (Date 50) \<and>
   endValue (set_endDate sampleDates (Date 50) boundedBreak) = Some 50 \<and>
   startValue (set_endDate sampleDates (Date 50) boundedBreak) = Some 50"
proof -
  have h1: "endValue boundedBreak = Some 100 \<and> 100 \<le> getTime sampleDates (Date 200) \<and>
     get_startDate boundedBreak \<noteq> Some (Date 200)"
    by (simp add: boundedBreak_eq setter_defs store_defs)
  have h2: "startValue boundedBreak = Some 50 \<and> getTime sampleDates (Date 50) \<le> 50 \<and>
     get_endDate boundedBreak \<noteq> Some (Date 50)"
    by (simp add: boundedBreak_eq setter_defs store_defs)
  show ?thesis
    using C1_out_of_order_date_is_stored [of boundedBreak 100 sampleDates "Date 200" 50]
      C1_out_of_order_date_is_stored [of boundedBreak 100 sampleDates "Date 50" 50] h1 h2
    by (simp add: store_defs)
qed

subsection \<open>Both invalidations are requested\<close>

text \<open>
  Claim C2. On a break with an attached axis, a call of the \<^verbatim>\<open>startDate\<close> or the
  \<^verbatim>\<open>endDate\<close> setter that changes the stored date calls \<^verbatim>\<open>invalidate()\<close> and then
  \<^verbatim>\<open>invalidateSeries()\<close> on the axis: the axis receives exactly these two requests, and
  both of its flags are raised.
\<close>

theorem C2_change_requests_both_invalidations:
  "axis this = Some a \<Longrightarrow>
   (get_startDate this \<noteq> Some v \<longrightarrow>
      axis (set_startDate h v this) = Some (invalidateSeries (invalidate a))) \<and>
   (get_endDate this \<noteq> Some v \<longrightarrow>
      axis (set_endDate h v this) = Some (invalidateSeries (invalidate a))) \<and>
   requests (invalidateSeries (invalidate a)) = requests a @ [Invalidate, InvalidateSeries] \<and>
   layoutDirty (invalidateSeries (invalidate a)) \<and>
   seriesDirty (invalidateSeries (invalidate a))"
  by (simp add: setter_defs invalidate_def invalidateSeries_def)

theorem C2_change_requests_both_invalidations_witness:
  "axis attachedBreak = Some cleanAxis \<and>
   get_startDate attachedBreak \<noteq> Some (Date 60) \<and>
   get_endDate attachedBreak \<noteq> Some (Date 60) \<and>
   axis (set_startDate sampleDates (Date 60) attachedBreak) =
     Some \<lparr>layoutDirty = True, seriesDirty = True,
           requests = [Invalidate, InvalidateSeries]\<rparr> \<and>
   axis (set_endDate sampleDates (Date 60) attachedBreak) =
     Some \<lparr>layoutDirty = True, seriesDirty = True,
           requests = [Invalidate, InvalidateSeries]\<rparr>"
proof -
  have ax: "axis attachedBreak = Some cleanAxis"
    by (simp add: attachedBreak_def)
  have s: "get_startDate attachedBreak \<noteq> Some (Date 60)"
    by (simp add: attachedBreak_def boundedBreak_eq setter_defs)
  have e: "get_endDate attachedBreak \<noteq> Some (Date 60)"
    by (simp add: attachedBreak_def boundedBreak_eq setter_defs)
  show ?thesis
    using C2_change_requests_both_invalidations [OF ax, of "Date 60" sampleDates] ax s e
    by (simp add: cleanAxis_def invalidate_def invalidateSeries_def)
qed

subsection \<open>Requests coalesce within a render cycle\<close>

text \<open>
  Claim C3. On a break with an attached axis, after \<^verbatim>\<open>endDate\<close> has been set to a new
  date, and whatever further mutations follow before the axis validates, the validation
  pass of the axis performs exactly one layout re-validation and exactly one series
  re-validation: repeated requests collapse into the two flags. What the dates denote
  when the further mutations run plays no part.
\<close>

theorem C3_one_revalidation_per_cycle:
  assumes "axis this = Some a" and "get_endDate this \<noteq> Some v"
  shows "map_option (fst \<circ> validate) (axis (mutations h' muts (set_endDate h v this)))
           = Some (1, 1)"
proof -
  have "bothDirty (axis (set_endDate h v this))"
    using assms by (simp add: bothDirty_def setter_defs invalidate_def invalidateSeries_def)
  then have "bothDirty (axis (mutations h' muts (set_endDate h v this)))"
    by (rule bothDirty_mutations)
  then show ?thesis by (rule bothDirty_validate)
qed

theorem C3_one_revalidation_per_cycle_witness:
  "axis attachedBreak = Some cleanAxis \<and>
   get_endDate attachedBreak \<noteq> Some (Date 120) \<and>
   map_option requests
     (axis (mutations sampleDates [SetEndDate (Date 130)]
        (set_endDate sampleDates (Date 120) attachedBreak)))
     = Some [Invalidate, InvalidateSeries, Invalidate, InvalidateSeries] \<and>
   map_option (fst \<circ> validate)
     (axis (mutations sampleDates [SetEndDate (Date 130)]
        (set_endDate sampleDates (Date 120) attachedBreak)))
     = Some (1, 1) \<and>
   map_option (fst \<circ> validate) (axis attachedBreak) = Some (0, 0)"
proof -
  have ax: "axis attachedBreak = Some cleanAxis"
    by (simp add: attachedBreak_def)
  have ne: "get_endDate attachedBreak \<noteq> Some (Date 120)"
    by (simp add: attachedBreak_def boundedBreak_eq setter_defs)
  have r: "map_option requests
     (axis (mutations sampleDates [SetEndDate (Date 130)]
        (set_endDate sampleDates (Date 120) attachedBreak)))
     = Some [Invalidate, InvalidateSeries, Invalidate, InvalidateSeries]"
    by (simp add: attachedBreak_def boundedBreak_eq setter_defs cleanAxis_def
        invalidate_def invalidateSeries_def)
  have z: "map_option (fst \<circ> validate) (axis attachedBreak) = Some (0, 0)"
    by (simp add: attachedBreak_def cleanAxis_def validate_def)
  show ?thesis
    using C3_one_revalidation_per_cycle
      [OF ax ne, of sampleDates "[SetEndDate (Date 130)]" sampleDates] ax ne r z
    by blast
qed

subsection \<open>The calendar view and the numeric view\<close>

text \<open>
  Claim C4, as stated, asks that for every break and every sequence of \<^verbatim>\<open>startDate\<close> and
  \<^verbatim>\<open>endDate\<close> mutations the date read agrees with the stored number. The setter keeps
  the caller's \<^verbatim>\<open>Date\<close> object and a number copied from it. The break with the bounds 50
  and 100 was given the object \<open>Date 50\<close> as its start; once the holder of that object
  has set it to 70, the date read from \<^verbatim>\<open>startDate\<close> denotes 70 while \<open>startValue\<close> is
  still 50, and assigning the same object again changes nothing. Likewise a break whose
  numeric start was written directly (999) keeps disagreeing when the dates it already
  holds are assigned again.
\<close>

theorem C4_views_disagree_counterexample:
  "viewsAgree sampleDates boundedBreak \<and>
   get_startDate boundedBreak = Some (Date 50) \<and>
   getTime agedDates (Date 50) = 70 \<and>
   startValue boundedBreak = Some 50 \<and>
   \<not> viewsAgree agedDates boundedBreak \<and>
   get_startDate (mutations agedDates [SetStartDate (Date 50)] boundedBreak)
     = Some (Date 50) \<and>
   startValue (mutations agedDates [SetStartDate (Date 50)] boundedBreak) = Some 50 \<and>
   \<not> viewsAgree agedDates (mutations agedDates [SetStartDate (Date 50)] boundedBreak) \<and>
   \<not> viewsAgree sampleDates
       (mutations sampleDates [SetStartDate (Date 50), SetEndDate (Date 100)] staleBreak)"
proof -
  have a: "viewsAgree sampleDates boundedBreak"
    by (simp add: viewsAgree_def boundedBreak_eq setter_defs store_defs)
  have b: "get_startDate boundedBreak = Some (Date 50)"
    by (simp add: boundedBreak_eq setter_defs)
  have c: "getTime agedDates (Date 50) = 70"
    by (simp add: store_defs)
  have d: "startValue boundedBreak = Some 50"
    by (simp add: boundedBreak_eq)
  have e: "\<not> viewsAgree agedDates boundedBreak"
    using b c d by (simp add: viewsAgree_def)
  have f: "mutations agedDates [SetStartDate (Date 50)] boundedBreak = boundedBreak"
    using b by (simp add: set_startDate_unchanged)
  have g: "get_endDate staleBreak = Some (Date 100)"
    "get_startDate staleBreak = Some (Date 50)"
    by (simp_all add: staleBreak_def boundedBreak_eq setter_defs)
  have k: "mutations sampleDates [SetStartDate (Date 50), SetEndDate (Date 100)] staleBreak
      = staleBreak"
    using g by (simp add: set_startDate_unchanged set_endDate_unchanged)
  have m: "\<not> viewsAgree sampleDates staleBreak"
    by (simp add: viewsAgree_def staleBreak_def boundedBreak_eq setter_defs store_defs)
  show ?thesis
    unfolding f k using a b c d e m by blast
qed

text \<open>
  Claim C4, amended. On a newly created break, and on any break on which the two views
  agree, after every sequence of \<^verbatim>\<open>startDate\<close> and \<^verbatim>\<open>endDate\<close> mutations during which no
  \<^verbatim>\<open>Date\<close> object is changed, the date read from \<^verbatim>\<open>startDate\<close> has the stored \<open>startValue\<close>
  as its time value and the date read from \<^verbatim>\<open>endDate\<close> has the stored \<open>endValue\<close>. The
  getter returns the object that was stored; the number is a copy taken when the object
  was stored, so a later change of the object, or a direct write of the number, is not
  followed by the other view.
\<close>

theorem C4_views_agree_after_mutations:
  "viewsAgree h (mutations h muts (DateAxisBreak_new :: 'i DateAxisBreak)) \<and>
   (viewsAgree h (this :: 'i DateAxisBreak) \<longrightarrow> viewsAgree h (mutations h muts this))"
  by (simp add: viewsAgree_mutations viewsAgree_new)

theorem C4_views_agree_after_mutations_witness:
  "viewsAgree sampleDates attachedBreak \<and>
   viewsAgree sampleDates (mutations sampleDates
     [SetStartDate (Date 200), SetEndDate (Date 100), SetEndDate (Date 10)] attachedBreak) \<and>
   get_startDate (mutations sampleDates
     [SetStartDate (Date 200), SetEndDate (Date 100), SetEndDate (Date 10)] attachedBreak)
     = Some (Date 200) \<and>
   startValue (mutations sampleDates
     [SetStartDate (Date 200), SetEndDate (Date 100), SetEndDate (Date 10)] attachedBreak)
     = Some 200 \<and>
   get_endDate (mutations sampleDates
     [SetStartDate (Date 200), SetEndDate (Date 100), SetEndDate (Date 10)] attachedBreak)
     = Some (Date 10) \<and>
   endValue (mutations sampleDates
     [SetStartDate (Date 200), SetEndDate (Date 100), SetEndDate (Date 10)] attachedBreak)
     = Some 10"
proof -
  let ?muts = "[SetStartDate (Date 200), SetEndDate (Date 100), SetEndDate (Date 10)]"
  have a: "viewsAgree sampleDates attachedBreak"
    by (simp add: viewsAgree_def attachedBreak_def boundedBreak_eq setter_defs store_defs)
  have b: "viewsAgree sampleDates (mutations sampleDates ?muts attachedBreak)"
    using C4_views_agree_after_mutations [of sampleDates ?muts attachedBreak] a by blast
  have c: "get_startDate (mutations sampleDates ?muts attachedBreak) = Some (Date 200)"
    by (simp add: attachedBreak_def boundedBreak_eq setter_defs store_defs cleanAxis_def)
  have d: "startValue (mutations sampleDates ?muts attachedBreak) = Some 200"
    by (simp add: attachedBreak_def boundedBreak_eq setter_defs store_defs cleanAxis_def)
  have e: "get_endDate (mutations sampleDates ?muts attachedBreak) = Some (Date 10)"
    by (simp add: attachedBreak_def boundedBreak_eq setter_defs store_defs cleanAxis_def)
  have f: "endValue (mutations sampleDates ?muts attachedBreak) = Some 10"
    by (simp add: attachedBreak_def boundedBreak_eq setter_defs store_defs cleanAxis_def)
  show ?thesis using a b c d e f by blast
qed

subsection \<open>A break without an axis\<close>

text \<open>
  Claim C5. On a break with no axis attached, either setter returns normally: a date
  other than the stored one is written to the property and its time value to the
  numeric bound, nothing else changes, and the axis reference stays unset, so no
  invalidation call is made. In every case the date given is the one stored afterwards.
\<close>

theorem C5_setter_without_axis:
  "axis this = None \<Longrightarrow>
   set_startDate h v this =
     (if get_startDate this = Some v then this
      else this\<lparr>properties := (properties this)(''startDate'' \<mapsto> v),
                startValue := Some (getTime h v)\<rparr>) \<and>
   set_endDate h v this =
     (if get_endDate this = Some v then this
      else this\<lparr>properties := (properties this)(''endDate'' \<mapsto> v),
                endValue := Some (getTime h v)\<rparr>) \<and>
   get_startDate (set_startDate h v this) = Some v \<and>
   get_endDate (set_endDate h v this) = Some v \<and>
   axis (set_startDate h v this) = None \<and> axis (set_endDate h v this) = None"
  by (simp add: setter_defs)

theorem C5_setter_without_axis_witness:
  "axis (DateAxisBreak_new :: unit DateAxisBreak) = None \<and>
   get_startDate
     (set_startDate sampleDates (Date 50) (DateAxisBreak_new :: unit DateAxisBreak))
     = Some (Date 50) \<and>
   startValue
     (set_startDate sampleDates (Date 50) (DateAxisBreak_new :: unit DateAxisBreak))
     = Some 50 \<and>
   get_endDate
     (set_endDate sampleDates (Date 100) (DateAxisBreak_new :: unit DateAxisBreak))
     = Some (Date 100) \<and>
   endValue
     (set_endDate sampleDates (Date 100) (DateAxisBreak_new :: unit DateAxisBreak))
     = Some 100 \<and>
   axis (set_startDate sampleDates (Date 50) (DateAxisBreak_new :: unit DateAxisBreak))
     = None"
proof -
  have ax: "axis (DateAxisBreak_new :: unit DateAxisBreak) = None"
    by (simp add: DateAxisBreak_new_def)
  show ?thesis
    using C5_setter_without_axis [OF ax, of sampleDates "Date 50"]
      C5_setter_without_axis [OF ax, of sampleDates "Date 100"] ax
    by (simp add: DateAxisBreak_new_def get_startDate_def get_endDate_def
        getPropertyValue_def store_defs)
qed

subsection \<open>What a setter leaves alone\<close>

text \<open>
  Claim C6. Setting \<^verbatim>\<open>startDate\<close> leaves \<open>gridInterval\<close>, \<open>gridDate\<close>, the end date and
  \<open>endValue\<close> unchanged; setting \<^verbatim>\<open>endDate\<close> leaves \<open>gridInterval\<close>, \<open>gridDate\<close>, the
  start date and \<open>startValue\<close> unchanged. No sequence of the two mutations writes
  \<open>gridInterval\<close> or \<open>gridDate\<close>: the break keeps what was last assigned to them.
\<close>

theorem C6_setters_keep_grid_and_opposite_bound:
  "gridInterval (set_startDate h v this) = gridInterval this \<and>
   gridDate (set_startDate h v this) = gridDate this \<and>
   get_endDate (set_startDate h v this) = get_endDate this \<and>
   endValue (set_startDate h v this) = endValue this \<and>
   gridInterval (set_endDate h v this) = gridInterval this \<and>
   gridDate (set_endDate h v this) = gridDate this \<and>
   get_startDate (set_endDate h v this) = get_startDate this \<and>
   startValue (set_endDate h v this) = startValue this \<and>
   gridInterval (mutations h muts this) = gridInterval this \<and>
   gridDate (mutations h muts this) = gridDate this"
  by (simp add: set_startDate_frame set_endDate_frame mutations_grid)

subsection \<open>The round trip of a date\<close>

text \<open>
  Claim C7. A date converted to its time value and back is the same date, for every
  date and so for what any \<^verbatim>\<open>Date\<close> object \<open>d\<close> given to a setter denotes. After a setter
  has been given \<open>d\<close>, reading the property returns \<open>d\<close> itself; and when the call
  changed the stored date, or the two views agreed before, the stored numeric bound is
  the time value of \<open>d\<close>, from which \<open>fromNumeric\<close> gives back what the date read denotes.
\<close>

theorem C7_date_round_trip:
  "fromNumeric (toNumeric x) = x \<and>
   fromNumeric (getTime h d) = h d \<and>
   get_startDate (set_startDate h d this) = Some d \<and>
   get_endDate (set_endDate h d this) = Some d \<and>
   (get_startDate this \<noteq> Some d \<or> viewsAgree h this \<longrightarrow>
      startValue (set_startDate h d this) = Some (toNumeric (h d)) \<and>
      startValue (set_startDate h d this) = Some (getTime h d) \<and>
      map_option fromNumeric (startValue (set_startDate h d this)) =
        map_option h (get_startDate (set_startDate h d this))) \<and>
   (get_endDate this \<noteq> Some d \<or> viewsAgree h this \<longrightarrow>
      endValue (set_endDate h d this) = Some (toNumeric (h d)) \<and>
      endValue (set_endDate h d this) = Some (getTime h d) \<and>
      map_option fromNumeric (endValue (set_endDate h d this)) =
        map_option h (get_endDate (set_endDate h d this)))"
  by (simp add: fromNumeric_toNumeric set_startDate_stores set_endDate_stores
      set_startDate_startValue set_endDate_endValue getTime_toNumeric)

theorem C7_date_round_trip_witness:
  "fromNumeric (toNumeric (DateValue 200)) = DateValue 200 \<and>
   sampleDates (Date 200) = DateValue 200 \<and>
   get_startDate boundedBreak \<noteq> Some (Date 200) \<and>
   get_endDate boundedBreak \<noteq> Some (Date 200) \<and>
   get_startDate (set_startDate sampleDates (Date 200) boundedBreak) = Some (Date 200) \<and>
   startValue (set_startDate sampleDates (Date 200) boundedBreak) = Some 200 \<and>
   fromNumeric 200 = DateValue 200 \<and>
   endValue (set_endDate sampleDates (Date 200) boundedBreak) = Some 200"
proof -
  have s: "get_startDate boundedBreak \<noteq> Some (Date 200)"
    by (simp add: boundedBreak_eq setter_defs)
  have e: "get_endDate boundedBreak \<noteq> Some (Date 200)"
    by (simp add: boundedBreak_eq setter_defs)
  show ?thesis
    using C7_date_round_trip [of "DateValue 200" sampleDates "Date 200" boundedBreak] s e
    by (simp add: toNumeric_def fromNumeric_def store_defs)
qed

subsection \<open>The coordinate transform of one break\<close>

text \<open>
  Claim C8. For a break and a pair \<open>start < end\<close>, \<open>setRange\<close> succeeds and stores the
  pair; the compressed span is \<open>mapValue(end) - mapValue(start) = (end - start) * breakSize\<close>;
  with a break size that is not negative, as the data model has it, \<open>mapValue\<close> is
  monotonic, in particular \<open>mapValue(start) \<le> mapValue(end)\<close>; and a break of size 1
  maps every value to itself.
\<close>

theorem C8_setRange_mapValue:
  "(start < end \<longrightarrow>
      fst (setRange start end b) = None \<and>
      NumericBreak.startValue (snd (setRange start end b)) = start \<and>
      NumericBreak.endValue (snd (setRange start end b)) = end \<and>
      breakSize (snd (setRange start end b)) = breakSize b \<and>
      mapValue (snd (setRange start end b)) end - mapValue (snd (setRange start end b)) start
        = (end - start) * breakSize b \<and>
      (0 \<le> breakSize b \<longrightarrow>
         mapValue (snd (setRange start end b)) start
           \<le> mapValue (snd (setRange start end b)) end \<and>
         (\<forall>x y. x \<le> y \<longrightarrow>
            mapValue (snd (setRange start end b)) x
              \<le> mapValue (snd (setRange start end b)) y))) \<and>
   (breakSize b = 1 \<longrightarrow> mapValue b x = x)"
proof (intro conjI impI allI)
  assume lt: "start < end"
  let ?b = "snd (setRange start end b)"
  show "fst (setRange start end b) = None" using lt by (simp add: setRange_ok)
  show s: "NumericBreak.startValue ?b = start" using lt by (simp add: setRange_ok)
  show e: "NumericBreak.endValue ?b = end" using lt by (simp add: setRange_ok)
  show k: "breakSize ?b = breakSize b" using lt by (simp add: setRange_ok)
  show "mapValue ?b end - mapValue ?b start = (end - start) * breakSize b"
    using mapValue_span [OF lt s e] k by simp
  have le: "NumericBreak.startValue ?b \<le> NumericBreak.endValue ?b" using lt s e by simp
  {
    assume nn: "0 \<le> breakSize b"
    then have nn': "0 \<le> breakSize ?b" using k by simp
    show "mapValue ?b start \<le> mapValue ?b end"
      using mapValue_mono [OF le nn', of start "end"] lt by simp
    fix x y :: real
    assume "x \<le> y"
    then show "mapValue ?b x \<le> mapValue ?b y"
      using mapValue_mono [OF le nn'] by simp
  }
next
  assume "breakSize b = 1"
  then show "mapValue b x = x" by (rule mapValue_identity)
qed

theorem C8_setRange_mapValue_witness:
  "(10::real) < 14 \<and> 0 \<le> breakSize weekendBreak \<and>
   fst (setRange 10 14 weekendBreak) = None \<and>
   mapValue (snd (setRange 10 14 weekendBreak)) 10 = 10 \<and>
   mapValue (snd (setRange 10 14 weekendBreak)) 14 = 12 \<and>
   mapValue (snd (setRange 10 14 weekendBreak)) 10
     \<le> mapValue (snd (setRange 10 14 weekendBreak)) 14 \<and>
   mapValue (snd (setRange 10 14 weekendBreak)) 14
     - mapValue (snd (setRange 10 14 weekendBreak)) 10
     = (14 - 10) * breakSize weekendBreak \<and>
   breakSize clashingBreak = 1 \<and> mapValue clashingBreak 7 = 7"
proof -
  have lt: "(10::real) < 14" by simp
  have k: "0 \<le> breakSize weekendBreak" by (simp add: weekendBreak_def)
  have one: "breakSize clashingBreak = 1" by (simp add: clashingBreak_def)
  have lo: "mapValue (snd (setRange 10 14 weekendBreak)) 10 = 10"
    by (simp add: setRange_def mapValue_def weekendBreak_def)
  have hi: "mapValue (snd (setRange 10 14 weekendBreak)) 14 = 12"
    by (simp add: setRange_def mapValue_def weekendBreak_def)
  show ?thesis
    using C8_setRange_mapValue [of 10 14 weekendBreak 7]
      C8_setRange_mapValue [of 10 14 clashingBreak 7] lt k one lo hi
    by simp
qed

subsection \<open>Adding a break to the set\<close>

text \<open>
  Claim C9. Adding a break whose interval \<open>[startValue, endValue)\<close> overlaps a break of
  the set fails with \<open>OverlapError\<close> and the set is afterwards what it was. Adding a
  break that overlaps none succeeds: the set then holds the old breaks and the new one,
  and a set that was in ascending order of \<open>startValue\<close> still is.
\<close>

theorem C9_add_rejects_overlap_and_keeps_order:
  "(list_ex (overlaps x) bs \<longrightarrow> BreakSet_add x bs = (Some OverlapError, bs)) \<and>
   (\<not> list_ex (overlaps x) bs \<longrightarrow>
      fst (BreakSet_add x bs) = None \<and>
      mset (snd (BreakSet_add x bs)) = add_mset x (mset bs) \<and>
      (sorted (map NumericBreak.startValue bs) \<longrightarrow>
         sorted (map NumericBreak.startValue (snd (BreakSet_add x bs)))))"
  by (simp add: BreakSet_add_def mset_insertSorted sorted_insertSorted)

theorem C9_add_rejects_overlap_and_keeps_order_witness:
  "list_ex (overlaps clashingBreak) [weekendBreak, holidayBreak] \<and>
   BreakSet_add clashingBreak [weekendBreak, holidayBreak]
     = (Some OverlapError, [weekendBreak, holidayBreak]) \<and>
   \<not> list_ex (overlaps middleBreak) [weekendBreak, holidayBreak] \<and>
   sorted (map NumericBreak.startValue [weekendBreak, holidayBreak]) \<and>
   BreakSet_add middleBreak [weekendBreak, holidayBreak]
     = (None, [weekendBreak, middleBreak, holidayBreak]) \<and>
   sorted (map NumericBreak.startValue
     (snd (BreakSet_add middleBreak [weekendBreak, holidayBreak])))"
proof -
  have a: "list_ex (overlaps clashingBreak) [weekendBreak, holidayBreak]"
    by (simp add: overlaps_def clashingBreak_def weekendBreak_def holidayBreak_def)
  have b: "\<not> list_ex (overlaps middleBreak) [weekendBreak, holidayBreak]"
    by (simp add: overlaps_def middleBreak_def weekendBreak_def holidayBreak_def)
  have c: "sorted (map NumericBreak.startValue [weekendBreak, holidayBreak])"
    by (simp add: weekendBreak_def holidayBreak_def)
  have d: "BreakSet_add middleBreak [weekendBreak, holidayBreak]
     = (None, [weekendBreak, middleBreak, holidayBreak])"
    using b by (simp add: BreakSet_add_def middleBreak_def weekendBreak_def holidayBreak_def)
  have e: "BreakSet_add clashingBreak [weekendBreak, holidayBreak]
     = (Some OverlapError, [weekendBreak, holidayBreak])"
    using C9_add_rejects_overlap_and_keeps_order
      [of clashingBreak "[weekendBreak, holidayBreak]"] a
    by blast
  have f: "sorted (map NumericBreak.startValue
     (snd (BreakSet_add middleBreak [weekendBreak, holidayBreak])))"
    using C9_add_rejects_overlap_and_keeps_order
      [of middleBreak "[weekendBreak, holidayBreak]"] b c
    by blast
  show ?thesis
    using a b c d e f by blast
qed

subsection \<open>Setting the date that is already stored\<close>

text \<open>
  Claim C10, as stated, asks that setting \<^verbatim>\<open>startDate\<close> (or \<^verbatim>\<open>endDate\<close>) to a value equal
  to the stored date is a complete no-op. The break with the bounds 50 and 100 holds the
  object \<open>Date 50\<close> as its start and is attached to an axis with no flag raised. Given
  \<open>Date 7\<close>, another object that denotes the same instant 50, the setter stores the new
  object and writes the numeric bound, and the axis has both flags raised and both calls
  in its requests.
\<close>

theorem C10_equal_date_is_a_change_counterexample:
  "get_startDate attachedBreak = Some (Date 50) \<and>
   twinDates (Date 7) = twinDates (Date 50) \<and>
   getTime twinDates (Date 7) = 50 \<and>
   startValue attachedBreak = Some 50 \<and>
   axis attachedBreak = Some cleanAxis \<and>
   set_startDate twinDates (Date 7) attachedBreak \<noteq> attachedBreak \<and>
   get_startDate (set_startDate twinDates (Date 7) attachedBreak) = Some (Date 7) \<and>
   bothDirty (axis (set_startDate twinDates (Date 7) attachedBreak)) \<and>
   map_option (\<lambda>a. Invalidate \<in> set (requests a) \<and> InvalidateSeries \<in> set (requests a))
     (axis (set_startDate twinDates (Date 7) attachedBreak)) = Some True \<and>
   \<not> bothDirty (axis attachedBreak) \<and>
   map_option requests (axis attachedBreak) = Some []"
proof -
  have s: "get_startDate attachedBreak = Some (Date 50)"
    by (simp add: attachedBreak_def boundedBreak_eq setter_defs)
  have ne: "get_startDate attachedBreak \<noteq> Some (Date 7)"
    using s by simp
  have ax: "axis attachedBreak = Some cleanAxis"
    by (simp add: attachedBreak_def)
  have ax': "axis (set_startDate twinDates (Date 7) attachedBreak)
      = Some (invalidateSeries (invalidate cleanAxis))"
    using set_startDate_changed(2) [OF ne ax] .
  have g: "get_startDate (set_startDate twinDates (Date 7) attachedBreak) = Some (Date 7)"
    by (rule set_startDate_stores)
  have d: "set_startDate twinDates (Date 7) attachedBreak \<noteq> attachedBreak"
    using g s by auto
  have t: "twinDates (Date 7) = twinDates (Date 50)" "getTime twinDates (Date 7) = 50"
    by (simp_all add: store_defs)
  have v: "startValue attachedBreak = Some 50"
    by (simp add: attachedBreak_def boundedBreak_eq)
  show ?thesis
    using s t v ax d g
    by (simp add: ax' bothDirty_def invalidated_axis cleanAxis_def)
qed

text \<open>
  Claim C10, amended. Setting \<^verbatim>\<open>startDate\<close> (or \<^verbatim>\<open>endDate\<close>) to the very \<^verbatim>\<open>Date\<close> object that
  is currently stored leaves the whole object as it was: the numeric bound is not
  written and the axis, also an attached one, receives no call, whatever the object
  denotes by then. Any other \<^verbatim>\<open>Date\<close> object is a change, also when it denotes the same
  instant as the stored one: it is stored, its time value is written to the numeric
  bound, and an attached axis has both flags raised and receives both calls. The body
  of the setter runs exactly when \<^verbatim>\<open>setPropertyValue\<close> reports a change.
\<close>

theorem C10_same_date_is_noop:
  "(get_startDate this = Some v \<longrightarrow> set_startDate h v this = this) \<and>
   (get_endDate this = Some v \<longrightarrow> set_endDate h v this = this) \<and>
   (get_startDate this \<noteq> Some v \<longrightarrow>
      get_startDate (set_startDate h v this) = Some v \<and>
      startValue (set_startDate h v this) = Some (getTime h v) \<and>
      (axis this = Some a \<longrightarrow>
         bothDirty (axis (set_startDate h v this)) \<and>
         (\<exists>a' calls. axis (set_startDate h v this) = Some a' \<and>
            requests a' = requests a @ calls \<and>
            Invalidate \<in> set calls \<and> InvalidateSeries \<in> set calls))) \<and>
   (get_endDate this \<noteq> Some v \<longrightarrow>
      get_endDate (set_endDate h v this) = Some v \<and>
      endValue (set_endDate h v this) = Some (getTime h v) \<and>
      (axis this = Some a \<longrightarrow>
         bothDirty (axis (set_endDate h v this)) \<and>
         (\<exists>a' calls. axis (set_endDate h v this) = Some a' \<and>
            requests a' = requests a @ calls \<and>
            Invalidate \<in> set calls \<and> InvalidateSeries \<in> set calls)))"
proof (intro conjI impI)
  assume "get_startDate this = Some v"
  then show "set_startDate h v this = this" by (rule set_startDate_unchanged)
next
  assume "get_endDate this = Some v"
  then show "set_endDate h v this = this" by (rule set_endDate_unchanged)
next
  show "get_startDate (set_startDate h v this) = Some v" by (rule set_startDate_stores)
next
  assume "get_startDate this \<noteq> Some v"
  then show "startValue (set_startDate h v this) = Some (getTime h v)"
    by (rule set_startDate_changed)
next
  assume "get_startDate this \<noteq> Some v" and "axis this = Some a"
  then show "bothDirty (axis (set_startDate h v this))" by (rule set_startDate_raises)
next
  assume "get_startDate this \<noteq> Some v" and "axis this = Some a"
  then show "\<exists>a' calls. axis (set_startDate h v this) = Some a' \<and>
      requests a' = requests a @ calls \<and>
      Invalidate \<in> set calls \<and> InvalidateSeries \<in> set calls"
    by (rule set_startDate_calls)
next
  show "get_endDate (set_endDate h v this) = Some v" by (rule set_endDate_stores)
next
  assume "get_endDate this \<noteq> Some v"
  then show "endValue (set_endDate h v this) = Some (getTime h v)"
    by (rule set_endDate_changed)
next
  assume "get_endDate this \<noteq> Some v" and "axis this = Some a"
  then show "bothDirty (axis (set_endDate h v this))" by (rule set_endDate_raises)
next
  assume "get_endDate this \<noteq> Some v" and "axis this = Some a"
  then show "\<exists>a' calls. axis (set_endDate h v this) = Some a' \<and>
      requests a' = requests a @ calls \<and>
      Invalidate \<in> set calls \<and> InvalidateSeries \<in> set calls"
    by (rule set_endDate_calls)
qed

theorem C10_same_date_is_noop_witness:
  "get_startDate attachedBreak = Some (Date 50) \<and>
   axis attachedBreak = Some cleanAxis \<and>
   set_startDate agedDates (Date 50) attachedBreak = attachedBreak \<and>
   get_endDate attachedBreak = Some (Date 100) \<and>
   set_endDate sampleDates (Date 100) attachedBreak = attachedBreak \<and>
   get_startDate attachedBreak \<noteq> Some (Date 7) \<and>
   get_startDate (set_startDate twinDates (Date 7) attachedBreak) = Some (Date 7) \<and>
   startValue (set_startDate twinDates (Date 7) attachedBreak) = Some 50 \<and>
   bothDirty (axis (set_startDate twinDates (Date 7) attachedBreak)) \<and>
   get_endDate attachedBreak \<noteq> Some (Date 7) \<and>
   endValue (set_endDate twinDates (Date 7) attachedBreak) = Some 50 \<and>
   bothDirty (axis (set_endDate twinDates (Date 7) attachedBreak))"
proof -
  have s: "get_startDate attachedBreak = Some (Date 50)"
    and e: "get_endDate attachedBreak = Some (Date 100)"
    by (simp_all add: attachedBreak_def boundedBreak_eq setter_defs)
  have ax: "axis attachedBreak = Some cleanAxis"
    by (simp add: attachedBreak_def)
  have t: "getTime twinDates (Date 7) = 50"
    by (simp add: store_defs)
  have n1: "set_startDate agedDates (Date 50) attachedBreak = attachedBreak"
    using C10_same_date_is_noop [of attachedBreak "Date 50" agedDates cleanAxis] s
    by blast
  have n2: "set_endDate sampleDates (Date 100) attachedBreak = attachedBreak"
    using C10_same_date_is_noop [of attachedBreak "Date 100" sampleDates cleanAxis] e
    by blast
  have ns: "get_startDate attachedBreak \<noteq> Some (Date 7)" using s by simp
  have ne: "get_endDate attachedBreak \<noteq> Some (Date 7)" using e by simp
  have c1: "get_startDate (set_startDate twinDates (Date 7) attachedBreak) = Some (Date 7)"
    "startValue (set_startDate twinDates (Date 7) attachedBreak)
       = Some (getTime twinDates (Date 7))"
    "bothDirty (axis (set_startDate twinDates (Date 7) attachedBreak))"
    using C10_same_date_is_noop [of attachedBreak "Date 7" twinDates cleanAxis] ns ax
    by blast+
  have c2: "endValue (set_endDate twinDates (Date 7) attachedBreak)
       = Some (getTime twinDates (Date 7))"
    "bothDirty (axis (set_endDate twinDates (Date 7) attachedBreak))"
    using C10_same_date_is_noop [of attachedBreak "Date 7" twinDates cleanAxis] ne ax
    by blast+
  show ?thesis
    using s e ax n1 n2 ns ne c1 c2 by (simp add: t)
qed

end
